theory Spec2Isabelle
  imports Main "HOL-Library.Word"
begin

unbundle bit_operations_syntax

section \<open>Ring buffer\<close>

text \<open>
  The streaming engine of the radio HAL: \<^verbatim>\<open>struct RingBuffer\<close>, the ICY handling of
  \<^verbatim>\<open>http_event_handler\<close>, the startup of \<^verbatim>\<open>audio_decode_task\<close> and the
  \<^verbatim>\<open>HalEsp32\<close> radio entry points.

  Bytes are \<^typ>\<open>8 word\<close>. The \<^verbatim>\<open>size_t\<close> cursors and counts are natural numbers:
  every one of them stays at or below the capacity, so no operation on them wraps.
  The FreeRTOS mutex is not part of the data: each operation that takes it with a
  bounded wait (\<^verbatim>\<open>pdMS_TO_TICKS(100)\<close>) receives the outcome of
  \<^verbatim>\<open>xSemaphoreTake\<close> as a boolean argument, \<open>True\<close> when the mutex was obtained
  and \<open>False\<close> when the wait timed out.
\<close>

type_synonym u8 = "8 word"

record RingBuffer =
  buffer :: "u8 list"
  size_rb :: nat
  writePos :: nat
  readPos :: nat
  dataAvailable :: nat

text \<open>
  \<^verbatim>\<open>init\<close>: the member initialisers put both cursors and the count at 0; the region
  returned by the allocator is the argument \<open>mem\<close> (\<open>None\<close> when both allocations
  fail), \<open>mutex_ok\<close> is whether the mutex could be created.
\<close>

definition init :: "nat \<Rightarrow> u8 list option \<Rightarrow> bool \<Rightarrow> RingBuffer \<Rightarrow> bool \<times> RingBuffer" where
  "init bufferSize mem mutex_ok rb =
     (case mem of
        None \<Rightarrow> (False, rb)
      | Some m \<Rightarrow> (mutex_ok, rb\<lparr>buffer := m, size_rb := bufferSize\<rparr>))"

definition fresh :: RingBuffer where
  "fresh = \<lparr>buffer = [], size_rb = 0, writePos = 0, readPos = 0, dataAvailable = 0\<rparr>"

text \<open>\<^verbatim>\<open>reset\<close> waits for the mutex without a bound (\<^verbatim>\<open>portMAX_DELAY\<close>).\<close>

definition reset :: "RingBuffer \<Rightarrow> RingBuffer" where
  "reset rb = rb\<lparr>writePos := 0, readPos := 0, dataAvailable := 0\<rparr>"

text \<open>One iteration of the copy loop of \<^verbatim>\<open>write\<close> per byte.\<close>

fun write_bytes :: "u8 list \<Rightarrow> RingBuffer \<Rightarrow> RingBuffer" where
  "write_bytes [] rb = rb"
| "write_bytes (b # bs) rb =
     write_bytes bs
       (rb\<lparr>buffer := (buffer rb)[writePos rb := b],
           writePos := (writePos rb + 1) mod size_rb rb\<rparr>)"

definition write_rb :: "u8 list \<Rightarrow> bool \<Rightarrow> RingBuffer \<Rightarrow> nat \<times> RingBuffer" where
  "write_rb data lock rb =
     (if \<not> lock then (0, rb)
      else
        let freeSpace = size_rb rb - dataAvailable rb;
            toWrite = (if length data < freeSpace then length data else freeSpace);
            rb1 = write_bytes (take toWrite data) rb
        in (toWrite, rb1\<lparr>dataAvailable := dataAvailable rb1 + toWrite\<rparr>))"

text \<open>
  The copy loop of \<^verbatim>\<open>read\<close>; the bytes stored to \<^verbatim>\<open>data[0]\<close>, \<^verbatim>\<open>data[1]\<close>, ...
  are returned as a list.
\<close>

fun read_bytes :: "nat \<Rightarrow> RingBuffer \<Rightarrow> u8 list \<times> RingBuffer" where
  "read_bytes 0 rb = ([], rb)"
| "read_bytes (Suc n) rb =
     (let b = buffer rb ! readPos rb;
          (bs, rb') = read_bytes n (rb\<lparr>readPos := (readPos rb + 1) mod size_rb rb\<rparr>)
      in (b # bs, rb'))"

definition read_rb :: "nat \<Rightarrow> bool \<Rightarrow> RingBuffer \<Rightarrow> nat \<times> u8 list \<times> RingBuffer" where
  "read_rb len lock rb =
     (if \<not> lock then (0, [], rb)
      else
        let toRead = (if len < dataAvailable rb then len else dataAvailable rb);
            (bs, rb1) = read_bytes toRead rb
        in (toRead, bs, rb1\<lparr>dataAvailable := dataAvailable rb1 - toRead\<rparr>))"

definition available :: "bool \<Rightarrow> RingBuffer \<Rightarrow> nat" where
  "available lock rb = (if \<not> lock then 0 else dataAvailable rb)"

text \<open>
  \<^verbatim>\<open>bufferPercent\<close>: the product is a 32-bit \<^verbatim>\<open>size_t\<close>; a capacity of 0 would
  divide by zero.
\<close>

definition bufferPercent_rb :: "bool \<Rightarrow> RingBuffer \<Rightarrow> nat option" where
  "bufferPercent_rb lock rb =
     (if size_rb rb = 0 then None
      else Some (((available lock rb * 100) mod 2 ^ 32) div size_rb rb))"

text \<open>
  The \<open>d\<close> bytes found from the read cursor on, wrapping at the capacity, and the
  bytes waiting in the buffer, oldest first.
\<close>

definition window :: "RingBuffer \<Rightarrow> nat \<Rightarrow> u8 list" where
  "window rb d = map (\<lambda>k. buffer rb ! ((readPos rb + k) mod size_rb rb)) [0..<d]"

definition contents :: "RingBuffer \<Rightarrow> u8 list" where
  "contents rb = window rb (dataAvailable rb)"

definition rb_inv :: "RingBuffer \<Rightarrow> bool" where
  "rb_inv rb \<longleftrightarrow>
     length (buffer rb) = size_rb rb \<and> dataAvailable rb \<le> size_rb rb \<and>
     readPos rb \<le> size_rb rb - 1 \<and>
     writePos rb = (readPos rb + dataAvailable rb) mod size_rb rb"

subsection \<open>Sequences of operations\<close>

datatype rb_op = Write "u8 list" bool | Read nat bool | Reset

text \<open>
  Running a sequence of operations, with four counters beside the buffer: the bytes
  accepted by all writes and delivered by all reads, and the same two counts since
  the most recent \<^verbatim>\<open>reset\<close>.
\<close>

record tally =
  totalWritten :: nat
  totalRead :: nat
  sinceWritten :: nat
  sinceRead :: nat

definition tally0 :: tally where
  "tally0 = \<lparr>totalWritten = 0, totalRead = 0, sinceWritten = 0, sinceRead = 0\<rparr>"

fun exec_op :: "rb_op \<Rightarrow> RingBuffer \<times> tally \<Rightarrow> RingBuffer \<times> tally" where
  "exec_op (Write d lk) (rb, t) =
     (case write_rb d lk rb of
        (n, rb') \<Rightarrow> (rb', t\<lparr>totalWritten := totalWritten t + n,
                             sinceWritten := sinceWritten t + n\<rparr>))"
| "exec_op (Read n lk) (rb, t) =
     (case read_rb n lk rb of
        (m, bs, rb') \<Rightarrow> (rb', t\<lparr>totalRead := totalRead t + m,
                                 sinceRead := sinceRead t + m\<rparr>))"
| "exec_op Reset (rb, t) = (reset rb, t\<lparr>sinceWritten := 0, sinceRead := 0\<rparr>)"

fun exec_ops :: "rb_op list \<Rightarrow> RingBuffer \<times> tally \<Rightarrow> RingBuffer \<times> tally" where
  "exec_ops [] s = s"
| "exec_ops (x # xs) s = exec_ops xs (exec_op x s)"

definition created :: "nat \<Rightarrow> u8 list \<Rightarrow> RingBuffer" where
  "created C mem = snd (init C (Some mem) True fresh)"

definition exec_inv :: "RingBuffer \<times> tally \<Rightarrow> bool" where
  "exec_inv s \<longleftrightarrow> rb_inv (fst s) \<and>
     sinceRead (snd s) + dataAvailable (fst s) = sinceWritten (snd s) \<and>
     readPos (fst s) = sinceRead (snd s) mod size_rb (fst s)"

section \<open>Radio stream state\<close>

text \<open>
  The file-level state: the fields of \<^verbatim>\<open>s_radio\<close>, the statics of the HTTP handler
  and of the byte source of the decoder, and the two members of \<^verbatim>\<open>HalEsp32\<close> the
  radio code touches (\<^verbatim>\<open>_radio_state\<close>, \<^verbatim>\<open>radioMetadata\<close>). Handles and pointers are
  booleans (\<open>True\<close>: not null), except the header buffer, whose contents matter.
  \<open>ringAllocated\<close> stands for \<^verbatim>\<open>ringBuffer.buffer\<close> not being null, and
  \<open>player_playing\<close> records that \<^verbatim>\<open>audio_player_play\<close> has accepted the stream of
  the ring buffer, and \<open>forwarded\<close> collects the bytes the data handler has passed to
  \<^verbatim>\<open>ringBuffer.write\<close>, whether or not the buffer took them.
  Of the log output, the two messages of the metadata path are kept in \<open>logged\<close>.
\<close>

text \<open>
  Modelled from the spec: the declarations of \<^verbatim>\<open>RadioState_t\<close> and of the type of
  \<^verbatim>\<open>radioMetadata\<close>, which are in a header that is not among the sources. The four
  lifecycle states and the four metadata attributes (title, station name, bitrate,
  buffer-fill percentage) are those of the specification, under the names this file
  uses for them.
\<close>

datatype RadioState_t = RADIO_STOPPED | RADIO_BUFFERING | RADIO_PLAYING | RADIO_ERROR

record RadioMetadata_t =
  title :: "u8 list"
  station :: "u8 list"
  bitrate :: int
  bufferPercent :: nat

datatype log_msg = NowPlaying "u8 list" | MetadataSpansChunks nat

record radio =
  mutex :: bool
  state :: RadioState_t
  currentUrl :: string
  streamTitle :: "u8 list"
  icyMetaInt :: int
  bytesUntilMeta :: int
  stopRequested :: bool
  httpTask :: bool
  audioTask :: bool
  ringAllocated :: bool
  ringBuffer :: RingBuffer
  spectrum :: "u8 list"
  hal :: bool
  streamId :: "32 word"
  s_http_task_stream_id :: "32 word"
  s_audio_ring_buffer :: bool
  s_stream_position :: nat
  s_header_buffer :: "u8 list option"
  s_header_bytes_saved :: nat
  s_header_read_pos :: nat
  s_header_replay_mode :: bool
  s_first_header_read_logged :: bool
  player_playing :: bool
  forwarded :: "u8 list"
  radio_state_member :: RadioState_t
  radioMetadata :: RadioMetadata_t
  logged :: "log_msg list"

definition RING_BUFFER_SIZE :: nat where
  "RING_BUFFER_SIZE = 256 * 1024"


definition SPECTRUM_BANDS :: nat where
  "SPECTRUM_BANDS = 32"

definition HEADER_BUFFER_SIZE :: nat where
  "HEADER_BUFFER_SIZE = 4096"

text \<open>The state before the first call: the initialisers of the declarations.\<close>

definition metadata0 :: RadioMetadata_t where
  "metadata0 = \<lparr>title = [], station = [], bitrate = 0, bufferPercent = 0\<rparr>"

definition radio0 :: "RadioMetadata_t \<Rightarrow> radio" where
  "radio0 md =
     \<lparr>mutex = False, state = RADIO_STOPPED, currentUrl = [], streamTitle = [],
      icyMetaInt = 0, bytesUntilMeta = 0, stopRequested = False, httpTask = False,
      audioTask = False, ringAllocated = False, ringBuffer = fresh,
      spectrum = replicate SPECTRUM_BANDS 0, hal = False, streamId = 0,
      s_http_task_stream_id = 0, s_audio_ring_buffer = False, s_stream_position = 0,
      s_header_buffer = None, s_header_bytes_saved = 0, s_header_read_pos = 0,
      s_header_replay_mode = False, s_first_header_read_logged = False,
      player_playing = False, forwarded = [], radio_state_member = RADIO_STOPPED,
      radioMetadata = md, logged = []\<rparr>"

subsection \<open>Spectrum copy\<close>

text \<open>
  \<^verbatim>\<open>memcpy(dst, src, n)\<close> on arrays given as lists: the first \<open>n\<close> bytes of \<open>dst\<close>
  are replaced; copying more than either array holds is undefined (\<open>None\<close>).
\<close>

definition memcpy :: "u8 list \<Rightarrow> u8 list \<Rightarrow> nat \<Rightarrow> u8 list option" where
  "memcpy dst src n =
     (if n \<le> length dst \<and> n \<le> length src then Some (take n src @ drop n dst) else None)"

definition getRadioSpectrum :: "u8 list \<Rightarrow> nat \<Rightarrow> radio \<Rightarrow> u8 list option" where
  "getRadioSpectrum out len st =
     (let copyLen = (if len < SPECTRUM_BANDS then len else SPECTRUM_BANDS)
      in memcpy out (spectrum st) copyLen)"

subsection \<open>Frame synchronisation\<close>

text \<open>
  The header test of the scan loop of \<^verbatim>\<open>audio_decode_task\<close>, in the order of its
  \<^verbatim>\<open>continue\<close> statements.
\<close>

definition valid_header :: "u8 \<Rightarrow> u8 \<Rightarrow> u8 \<Rightarrow> bool" where
  "valid_header b0 b1 b2 =
     (if b0 \<noteq> 0xFF \<or> (b1 AND 0xE0) \<noteq> 0xE0 then False
      else
        let version = (drop_bit 3 b1) AND 0x03;
            layer = (drop_bit 1 b1) AND 0x03
        in if version = 1 \<or> layer = 0 then False
           else
             let bitrateIdx = (drop_bit 4 b2) AND 0x0F;
                 sampleRateIdx = (drop_bit 2 b2) AND 0x03
             in if bitrateIdx = 0 \<or> bitrateIdx = 15 \<or> sampleRateIdx = 3 then False
                else True)"

datatype scan_result = Found nat | NotFound | OutOfBounds

text \<open>
  The loop \<^verbatim>\<open>for (size_t i = 0; i < bytesRead - 3; i++)\<close>. The bound is computed in
  32-bit \<^verbatim>\<open>size_t\<close>: with fewer than 3 bytes read it wraps around, and the loop then
  runs off the end of the header buffer (\<open>OutOfBounds\<close>).
\<close>

definition scan_bound :: "nat \<Rightarrow> nat" where
  "scan_bound bytesRead = (bytesRead + 2 ^ 32 - 3) mod 2 ^ 32"

function sync_scan :: "u8 list \<Rightarrow> nat \<Rightarrow> nat \<Rightarrow> scan_result" where
  "sync_scan hb bound i =
     (if i < bound then
        (if length hb \<le> i + 2 then OutOfBounds
         else if valid_header (hb ! i) (hb ! (i + 1)) (hb ! (i + 2)) then Found i
         else sync_scan hb bound (i + 1))
      else NotFound)"
  by pat_completeness auto
termination
  by (relation "measure (\<lambda>(hb, bound, i). bound - i)") auto

declare sync_scan.simps [simp del]

text \<open>
  What follows the loop: the header buffer after the \<^verbatim>\<open>memmove\<close> and the number of
  bytes saved for replay. A sync offset beyond the bytes read (possible only after the
  bound has wrapped) makes the unsigned length of the \<^verbatim>\<open>memmove\<close> wrap: \<open>None\<close>.
\<close>

definition shift_to_sync :: "u8 list \<Rightarrow> nat \<Rightarrow> scan_result \<Rightarrow> (u8 list \<times> nat) option" where
  "shift_to_sync hb bytesRead r =
     (case r of
        OutOfBounds \<Rightarrow> None
      | NotFound \<Rightarrow> Some (hb, bytesRead)
      | Found syncOffset \<Rightarrow>
          if 0 < syncOffset then
            if bytesRead < syncOffset then None
            else
              let saved = bytesRead - syncOffset
              in Some (take saved (drop syncOffset hb) @ drop saved hb, saved)
          else Some (hb, bytesRead))"

definition find_sync :: "u8 list \<Rightarrow> nat \<Rightarrow> (u8 list \<times> nat) option" where
  "find_sync hb bytesRead =
     shift_to_sync hb bytesRead (sync_scan hb (scan_bound bytesRead) 0)"

text \<open>The bytes the decoder is given first: the saved prefix of the header buffer.\<close>

definition replay_content :: "(u8 list \<times> nat) \<Rightarrow> u8 list" where
  "replay_content r = take (snd r) (fst r)"

text \<open>The test of the scan at an offset of the probe window.\<close>

definition valid_at :: "u8 list \<Rightarrow> nat \<Rightarrow> bool" where
  "valid_at w i = valid_header (w ! i) (w ! (i + 1)) (w ! (i + 2))"

text \<open>
  The synchroniser as the specification words it: the first offset of the probe window
  at which the three header bytes lie inside the window and pass the test, and the
  window from that offset on, or the whole window when there is no such offset.
\<close>

definition spec_sync_offset :: "u8 list \<Rightarrow> nat option" where
  "spec_sync_offset w = find (valid_at w) [0..<length w - 2]"

definition spec_sync_window :: "u8 list \<Rightarrow> u8 list" where
  "spec_sync_window w = (case spec_sync_offset w of None \<Rightarrow> w | Some i \<Rightarrow> drop i w)"

section \<open>ICY metadata and the HTTP event handler\<close>

text \<open>
  The two C string searches of \<^verbatim>\<open>parse_icy_metadata\<close>. The pointer they start from
  points into the received chunk, and the list given to them is the chunk from that
  pointer to its end. Neither search is bounded by the metadata length: each stops at a
  match or at the first zero byte. A search that reaches the end of the chunk without
  either depends on memory after the chunk: \<open>PastChunk\<close>.
\<close>

datatype cptr = Ptr nat | Null | PastChunk

fun strstr :: "u8 list \<Rightarrow> u8 list \<Rightarrow> cptr" where
  "strstr [] needle = PastChunk"
| "strstr (h # hs) needle =
     (if take (length needle) (h # hs) = needle then Ptr 0
      else if h = 0 then Null
      else (case strstr hs needle of Ptr i \<Rightarrow> Ptr (Suc i) | Null \<Rightarrow> Null | PastChunk \<Rightarrow> PastChunk))"

fun strchr :: "u8 list \<Rightarrow> u8 \<Rightarrow> cptr" where
  "strchr [] c = PastChunk"
| "strchr (h # hs) c =
     (if h = c then Ptr 0
      else if h = 0 then Null
      else (case strchr hs c of Ptr i \<Rightarrow> Ptr (Suc i) | Null \<Rightarrow> Null | PastChunk \<Rightarrow> PastChunk))"

definition bytes_of :: "string \<Rightarrow> u8 list" where
  "bytes_of s = map of_char s"

definition StreamTitle_key :: "u8 list" where
  "StreamTitle_key = bytes_of ''StreamTitle='' @ [0x27]"

text \<open>
  \<^verbatim>\<open>parse_icy_metadata\<close>; \<open>lock\<close> is the outcome of taking the state mutex. The
  result is \<open>None\<close> when a search runs past the chunk.
\<close>

definition parse_icy_metadata :: "u8 list \<Rightarrow> bool \<Rightarrow> radio \<Rightarrow> radio option" where
  "parse_icy_metadata metadata lock st =
     (case strstr metadata StreamTitle_key of
        PastChunk \<Rightarrow> None
      | Null \<Rightarrow> Some st
      | Ptr i \<Rightarrow>
          let titleStart = i + 13
          in (case strchr (drop titleStart metadata) 0x27 of
                PastChunk \<Rightarrow> None
              | Null \<Rightarrow> Some st
              | Ptr titleLen \<Rightarrow>
                  if 0 < titleLen \<and> titleLen < 256 then
                    if lock then
                      let t = take titleLen (drop titleStart metadata)
                      in Some (st\<lparr>streamTitle := t,
                                  radioMetadata :=
                                    (if hal st then (radioMetadata st)\<lparr>title := t\<rparr>
                                     else radioMetadata st),
                                  logged := logged st @ [NowPlaying t]\<rparr>)
                    else Some st
                  else Some st))"

datatype esp_err_t = ESP_OK | ESP_FAIL

text \<open>
  The events the handler distinguishes. A header event carries the key as classified
  by the \<^verbatim>\<open>strcasecmp\<close> chain, the value, and \<^verbatim>\<open>atoi\<close> of the value.
\<close>

datatype header_key = icy_metaint | icy_name | icy_br | other_key

datatype http_event =
  HTTP_EVENT_ON_HEADER header_key "u8 list" int
| HTTP_EVENT_ON_DATA "u8 list"
| HTTP_EVENT_OTHER

text \<open>
  The outcomes of the bounded mutex waits of one handler call: \<open>wlock p\<close> for the
  ring-buffer write issued at chunk offset \<open>p\<close>, \<open>mlock p\<close> for the title update of
  the metadata starting at offset \<open>p\<close>, \<open>hlock\<close> for a header update, \<open>plock\<close> and
  \<open>alock\<close> for the buffer-percentage update and the \<^verbatim>\<open>available()\<close> inside it.
\<close>

record lock_env =
  wlock :: "nat \<Rightarrow> bool"
  mlock :: "nat \<Rightarrow> bool"
  hlock :: bool
  plock :: bool
  alock :: bool

definition all_locks :: lock_env where
  "all_locks = \<lparr>wlock = (\<lambda>p. True), mlock = (\<lambda>p. True), hlock = True, plock = True,
                 alock = True\<rparr>"

text \<open>
  The \<^verbatim>\<open>while\<close> loop of the data event for a stream with metadata; \<open>dataPos\<close> is
  the offset in the chunk \<open>data\<close>.
\<close>

function icy_loop :: "lock_env \<Rightarrow> u8 list \<Rightarrow> nat \<Rightarrow> radio \<Rightarrow> radio option" where
  "icy_loop env data dataPos st =
     (if dataPos < length data \<and> s_http_task_stream_id st = streamId st then
        (if 0 < bytesUntilMeta st then
           (let audioBytes = (if int (length data - dataPos) < bytesUntilMeta st
                              then length data - dataPos else nat (bytesUntilMeta st));
                rb' = snd (write_rb (take audioBytes (drop dataPos data)) (wlock env dataPos)
                             (ringBuffer st))
            in icy_loop env data (dataPos + audioBytes)
                 (st\<lparr>ringBuffer := rb',
                     forwarded := forwarded st @ take audioBytes (drop dataPos data),
                     bytesUntilMeta := bytesUntilMeta st - int audioBytes\<rparr>))
         else
           (let metaLen = unat (data ! dataPos) * 16;
                dataPos1 = dataPos + 1
            in if 0 < metaLen then
                 (if dataPos1 + metaLen \<le> length data then
                    (case parse_icy_metadata (drop dataPos1 data) (mlock env dataPos1) st of
                       None \<Rightarrow> None
                     | Some st1 \<Rightarrow>
                         icy_loop env data (dataPos1 + metaLen)
                           (st1\<lparr>bytesUntilMeta := icyMetaInt st1\<rparr>))
                  else
                    icy_loop env data (length data)
                      (st\<lparr>logged := logged st @ [MetadataSpansChunks metaLen],
                          bytesUntilMeta := icyMetaInt st\<rparr>))
               else icy_loop env data dataPos1 (st\<lparr>bytesUntilMeta := icyMetaInt st\<rparr>)))
      else Some st)"
  by pat_completeness auto
termination
  by (relation "measure (\<lambda>(env, data, dataPos, st). length data - dataPos)") auto

declare icy_loop.simps [simp del]

definition update_bufferPercent :: "lock_env \<Rightarrow> radio \<Rightarrow> radio option" where
  "update_bufferPercent env st =
     (if plock env \<and> hal st then
        (case bufferPercent_rb (alock env) (ringBuffer st) of
           None \<Rightarrow> None
         | Some p \<Rightarrow> Some (st\<lparr>radioMetadata := (radioMetadata st)\<lparr>bufferPercent := p\<rparr>\<rparr>))
      else Some st)"

definition http_event_handler :: "lock_env \<Rightarrow> http_event \<Rightarrow> radio \<Rightarrow> (esp_err_t \<times> radio) option" where
  "http_event_handler env evt st =
     (case evt of
        HTTP_EVENT_ON_HEADER key val n \<Rightarrow>
          (case key of
             icy_metaint \<Rightarrow> Some (ESP_OK, st\<lparr>icyMetaInt := n, bytesUntilMeta := n\<rparr>)
           | icy_name \<Rightarrow>
               Some (ESP_OK,
                 if hlock env \<and> hal st
                 then st\<lparr>radioMetadata := (radioMetadata st)\<lparr>station := val\<rparr>\<rparr> else st)
           | icy_br \<Rightarrow>
               Some (ESP_OK,
                 if hlock env \<and> hal st
                 then st\<lparr>radioMetadata := (radioMetadata st)\<lparr>bitrate := n\<rparr>\<rparr> else st)
           | other_key \<Rightarrow> Some (ESP_OK, st))
      | HTTP_EVENT_ON_DATA data \<Rightarrow>
          if stopRequested st then Some (ESP_FAIL, st)
          else if s_http_task_stream_id st \<noteq> streamId st then Some (ESP_FAIL, st)
          else
            (case (if 0 < icyMetaInt st then icy_loop env data 0 st
                   else Some (st\<lparr>ringBuffer :=
                                   snd (write_rb data (wlock env 0) (ringBuffer st)),
                                 forwarded := forwarded st @ data\<rparr>)) of
               None \<Rightarrow> None
             | Some st1 \<Rightarrow>
                 (case update_bufferPercent env st1 of
                    None \<Rightarrow> None
                  | Some st2 \<Rightarrow> Some (ESP_OK, st2)))
      | HTTP_EVENT_OTHER \<Rightarrow> Some (ESP_OK, st))"

text \<open>
  The body chunks of one connection, handed to the handler in order; the request is
  abandoned at the first call that returns \<^verbatim>\<open>ESP_FAIL\<close>.
\<close>

fun on_data_all :: "(lock_env \<times> u8 list) list \<Rightarrow> radio \<Rightarrow> (esp_err_t \<times> radio) option" where
  "on_data_all [] st = Some (ESP_OK, st)"
| "on_data_all ((env, c) # cs) st =
     (case http_event_handler env (HTTP_EVENT_ON_DATA c) st of
        None \<Rightarrow> None
      | Some (ESP_FAIL, st') \<Rightarrow> Some (ESP_FAIL, st')
      | Some (ESP_OK, st') \<Rightarrow> on_data_all cs st')"

text \<open>
  The first statements of \<^verbatim>\<open>http_stream_task\<close>: the task keeps the stream id in
  its local \<^verbatim>\<open>myStreamId\<close> and stores it in the static the handler compares. Its
  last statements, after \<^verbatim>\<open>esp_http_client_perform\<close> has returned \<open>err\<close>.
\<close>

definition http_stream_task_begin :: "radio \<Rightarrow> 32 word \<times> radio" where
  "http_stream_task_begin st = (streamId st, st\<lparr>s_http_task_stream_id := streamId st\<rparr>)"

definition http_stream_task_end :: "esp_err_t \<Rightarrow> radio \<Rightarrow> radio" where
  "http_stream_task_end err st =
     (let st1 = (if err \<noteq> ESP_OK \<and> \<not> stopRequested st then st\<lparr>state := RADIO_ERROR\<rparr> else st)
      in st1\<lparr>httpTask := False\<rparr>)"

subsection \<open>The de-interleaving of the specification\<close>

text \<open>
  The extractor as the specification words it, on a byte sequence \<open>s\<close> with the
  counter at \<open>k\<close> and the interval \<open>N\<close>: while the counter is positive the next
  \<open>min (length s) k\<close> bytes are audio; at 0 the next byte is the length byte \<open>L\<close>,
  the \<open>L * 16\<close> bytes after it are metadata, and the counter is \<open>N\<close> again. The result
  is the audio bytes and the counter at the end of \<open>s\<close>, and \<open>None\<close> when \<open>s\<close> ends
  inside a metadata frame.
\<close>

function icy_deinterleave :: "nat \<Rightarrow> nat \<Rightarrow> u8 list \<Rightarrow> (u8 list \<times> nat) option" where
  "icy_deinterleave N k s =
     (if s = [] then Some ([], k)
      else if 0 < k then
        (case icy_deinterleave N (k - min (length s) k) (drop (min (length s) k) s) of
           None \<Rightarrow> None
         | Some (au, k') \<Rightarrow> Some (take (min (length s) k) s @ au, k'))
      else if unat (hd s) * 16 \<le> length (tl s)
        then icy_deinterleave N N (drop (unat (hd s) * 16) (tl s))
        else None)"
  by pat_completeness auto
termination
  by (relation "measure (\<lambda>(N, k, s). length s)") auto

declare icy_deinterleave.simps [simp del]


section \<open>Start, stop and the start of the decode task\<close>

text \<open>
  \<^verbatim>\<open>stopRadioStream\<close> polls each task handle up to 50 times, 100 ms apart. What the
  polls see is given by the number of polls after which the task has cleared its
  handle (\<open>None\<close>: not within the wait). \<open>wait_exit h ex k t\<close> is whether the handle is
  still set when the loop ends, for a handle that was set (\<open>h\<close>) at the start, at poll
  \<open>k\<close>, with \<open>t\<close> polls left.
\<close>

record stop_env =
  audioExit :: "nat option"
  httpExit :: "nat option"

definition handle_set :: "nat option \<Rightarrow> nat \<Rightarrow> bool" where
  "handle_set ex k = (case ex of None \<Rightarrow> True | Some n \<Rightarrow> k < n)"

fun wait_exit :: "bool \<Rightarrow> nat option \<Rightarrow> nat \<Rightarrow> nat \<Rightarrow> bool" where
  "wait_exit h ex k 0 = (h \<and> handle_set ex k)"
| "wait_exit h ex k (Suc t) =
     (if h \<and> handle_set ex k then wait_exit h ex (Suc k) t else False)"

definition stopRadioStream :: "stop_env \<Rightarrow> radio \<Rightarrow> radio" where
  "stopRadioStream env st =
     (let st1 = st\<lparr>stopRequested := True\<rparr>;
          st2 = st1\<lparr>audioTask := wait_exit (audioTask st1) (audioExit env) 0 50\<rparr>;
          st3 = st2\<lparr>httpTask := wait_exit (httpTask st2) (httpExit env) 0 50\<rparr>;
          st4 = (if httpTask st3 then st3\<lparr>httpTask := False\<rparr> else st3);
          st5 = (if audioTask st4 then st4\<lparr>audioTask := False\<rparr> else st4);
          st6 = st5\<lparr>s_audio_ring_buffer := False, s_stream_position := 0\<rparr>;
          st7 = (if mutex st6 then st6\<lparr>state := RADIO_STOPPED\<rparr> else st6)
      in st7\<lparr>radio_state_member := RADIO_STOPPED,
             radioMetadata := (radioMetadata st7)\<lparr>title := [], bufferPercent := 0\<rparr>\<rparr>)"

text \<open>\<^verbatim>\<open>getRadioState\<close>; \<open>lock\<close> is the outcome of the bounded wait for the mutex.\<close>

definition getRadioState :: "bool \<Rightarrow> radio \<Rightarrow> RadioState_t" where
  "getRadioState lock st =
     (if \<not> mutex st then RADIO_STOPPED
      else if lock then state st
      else radio_state_member st)"

text \<open>
  \<^verbatim>\<open>startRadioStream\<close>. Its environment: that of the stop it begins with, whether the
  state mutex can be created, the region and mutex of the ring buffer, and whether
  each of the two tasks can be created.
\<close>

record start_env =
  stopping :: stop_env
  mutex_created :: bool
  ring_mem :: "u8 list option"
  ring_mutex_ok :: bool
  http_created :: bool
  audio_created :: bool

definition startRadioStream :: "start_env \<Rightarrow> string \<Rightarrow> radio \<Rightarrow> bool \<times> radio" where
  "startRadioStream env url st =
     (let st1 = stopRadioStream (stopping env) st
      in if \<not> mutex st1 \<and> \<not> mutex_created env then (False, st1)
         else
           let st2 = st1\<lparr>mutex := True\<rparr>;
               r = (if ringAllocated st2 then (True, ringBuffer st2)
                    else init RING_BUFFER_SIZE (ring_mem env) (ring_mutex_ok env) (ringBuffer st2));
               st3 = st2\<lparr>ringAllocated := ringAllocated st2 \<or> ring_mem env \<noteq> None,
                         ringBuffer := snd r\<rparr>
           in if \<not> fst r then (False, st3)
              else
                let st4 = st3\<lparr>ringBuffer := reset (ringBuffer st3)\<rparr>;
                    st5 = st4\<lparr>streamId := streamId st4 + 1,
                              currentUrl := url,
                              state := RADIO_BUFFERING,
                              stopRequested := False,
                              streamTitle := [],
                              icyMetaInt := 0,
                              bytesUntilMeta := 0,
                              hal := True,
                              radioMetadata :=
                                (radioMetadata st4)\<lparr>title := [], station := [],
                                                      bufferPercent := 0\<rparr>,
                              spectrum := replicate SPECTRUM_BANDS 0\<rparr>;
                    st6 = st5\<lparr>radio_state_member := RADIO_BUFFERING\<rparr>
                in if \<not> http_created env then (False, st6\<lparr>radio_state_member := RADIO_ERROR\<rparr>)
                   else
                     let st7 = st6\<lparr>httpTask := True\<rparr>
                     in if \<not> audio_created env
                        then (False, st7\<lparr>stopRequested := True,
                                          radio_state_member := RADIO_ERROR\<rparr>)
                        else (True, st7\<lparr>audioTask := True\<rparr>))"








text \<open>
  States and inputs of the examples of the handler. A session started from the initial
  state with every resource granted; of an earlier session, if any, the decode task
  ends at the first poll of the stop and the HTTP task does not end within its wait.
  The HTTP task of the session has begun.
\<close>

definition start_env_ok :: start_env where
  "start_env_ok =
     \<lparr>stopping = \<lparr>audioExit = Some 1, httpExit = None\<rparr>, mutex_created = True,
      ring_mem = Some (replicate RING_BUFFER_SIZE 0), ring_mutex_ok = True,
      http_created = True, audio_created = True\<rparr>"

definition session1 :: radio where
  "session1 = snd (startRadioStream start_env_ok ''http://a'' (radio0 metadata0))"

definition task1 :: "32 word \<times> radio" where
  "task1 = http_stream_task_begin session1"

definition session2 :: radio where
  "session2 = snd (startRadioStream start_env_ok ''http://b'' (snd task1))"

definition task2 :: "32 word \<times> radio" where
  "task2 = http_stream_task_begin session2"

text \<open>The first session after the header \<^verbatim>\<open>icy-metaint: 4\<close>.\<close>

definition metaint4 :: radio where
  "metaint4 =
     snd (the (http_event_handler all_locks (HTTP_EVENT_ON_HEADER icy_metaint (bytes_of ''4'') 4)
                 (snd task1)))"

text \<open>
  A stream with interval 4: four audio bytes, the length byte 1, the 16 bytes
  \<^verbatim>\<open>StreamTitle='X';\<close>, four audio bytes and the length byte 0, received in two chunks
  with the boundary after the third metadata byte.
\<close>

definition split_chunk1 :: "u8 list" where
  "split_chunk1 = [0x10, 0x11, 0x12, 0x13, 0x01] @ bytes_of ''Str''"

definition split_chunk2 :: "u8 list" where
  "split_chunk2 = bytes_of ''eamTitle='' @ [0x27] @ bytes_of ''X'' @ [0x27] @ bytes_of '';''
                  @ [0x20, 0x21, 0x22, 0x23, 0x00]"


definition icy_audio100 :: "u8 list" where
  "icy_audio100 = map of_nat [0..<100]"





section \<open>Properties of the ring buffer\<close>

lemma write_bytes_fields [simp]:
  "size_rb (write_bytes bs rb) = size_rb rb"
  "readPos (write_bytes bs rb) = readPos rb"
  "dataAvailable (write_bytes bs rb) = dataAvailable rb"
  "length (buffer (write_bytes bs rb)) = length (buffer rb)"
  by (induction bs arbitrary: rb) simp_all

lemma mod_Suc_shift: "(k + Suc w mod s) mod s = Suc (k + w) mod (s::nat)"
  by (metis add_Suc_right mod_add_right_eq)

lemma write_bytes_writePos:
  "writePos rb < size_rb rb \<Longrightarrow>
   writePos (write_bytes bs rb) = (writePos rb + length bs) mod size_rb rb"
proof (induction bs arbitrary: rb)
  case Nil
  then show ?case by simp
next
  case (Cons b bs)
  then show ?case by (simp add: mod_Suc_shift ac_simps)
qed

lemma read_bytes_Suc:
  "read_bytes (Suc n) rb =
     (buffer rb ! readPos rb #
        fst (read_bytes n (rb\<lparr>readPos := (readPos rb + 1) mod size_rb rb\<rparr>)),
      snd (read_bytes n (rb\<lparr>readPos := (readPos rb + 1) mod size_rb rb\<rparr>)))"
  by (simp add: case_prod_beta)

lemma read_bytes_fields [simp]:
  "size_rb (snd (read_bytes n rb)) = size_rb rb"
  "writePos (snd (read_bytes n rb)) = writePos rb"
  "dataAvailable (snd (read_bytes n rb)) = dataAvailable rb"
  "buffer (snd (read_bytes n rb)) = buffer rb"
  "length (fst (read_bytes n rb)) = n"
  by (induction n arbitrary: rb) (simp_all add: read_bytes_Suc del: read_bytes.simps(2))

lemma read_bytes_readPos:
  "readPos rb < size_rb rb \<Longrightarrow>
   readPos (snd (read_bytes n rb)) = (readPos rb + n) mod size_rb rb"
proof (induction n arbitrary: rb)
  case 0
  then show ?case by simp
next
  case (Suc n)
  then show ?case by (simp add: read_bytes_Suc mod_Suc_shift ac_simps del: read_bytes.simps(2))
qed

lemma mod_add_inj_le:
  assumes "(r + k) mod s = (r + d) mod (s::nat)" "k \<le> d" "d < s"
  shows "k = d"
proof -
  have "r + k \<le> r + d" using assms(2) by simp
  from mod_eq_dvd_iff_nat [OF this, of s] assms(1)
  have "s dvd (r + d) - (r + k)" by simp
  then have "s dvd d - k" by simp
  moreover have "d - k < s" using assms(3) by simp
  ultimately have "d - k = 0" using dvd_imp_le by fastforce
  with assms(2) show ?thesis by simp
qed

lemma mod_add_inj:
  assumes "(r + k) mod s = (r + d) mod (s::nat)" "k < s" "d < s"
  shows "k = d"
proof (cases "k \<le> d")
  case True
  with assms show ?thesis by (rule_tac mod_add_inj_le)
next
  case False
  then have "d \<le> k" by simp
  with assms(1)[symmetric] assms(2) have "d = k" by (rule_tac mod_add_inj_le)
  then show ?thesis by simp
qed

lemma window_push:
  fixes b :: u8
  assumes l: "length (buffer rb) = size_rb rb" and d: "d < size_rb rb"
    and w: "writePos rb = (readPos rb + d) mod size_rb rb"
  shows "window (rb\<lparr>buffer := (buffer rb)[writePos rb := b],
                    writePos := (writePos rb + 1) mod size_rb rb\<rparr>) (Suc d)
         = window rb d @ [b]"
proof -
  have old: "(buffer rb)[writePos rb := b] ! ((readPos rb + k) mod size_rb rb)
           = buffer rb ! ((readPos rb + k) mod size_rb rb)" if "k < d" for k
  proof -
    have "(readPos rb + k) mod size_rb rb \<noteq> writePos rb"
      using mod_add_inj [of "readPos rb" k "size_rb rb" d] that d w by auto
    then show ?thesis by simp
  qed
  have new: "(buffer rb)[writePos rb := b] ! ((readPos rb + d) mod size_rb rb) = b"
    using w l d by simp
  show ?thesis
    using old new by (simp add: window_def)
qed

lemma window_write_bytes:
  "length (buffer rb) = size_rb rb \<Longrightarrow> d + length bs \<le> size_rb rb \<Longrightarrow>
   writePos rb = (readPos rb + d) mod size_rb rb \<Longrightarrow>
   window (write_bytes bs rb) (d + length bs) = window rb d @ bs"
proof (induction bs arbitrary: rb d)
  case Nil
  then show ?case by simp
next
  case (Cons b bs)
  let ?rb1 = "rb\<lparr>buffer := (buffer rb)[writePos rb := b],
                  writePos := (writePos rb + 1) mod size_rb rb\<rparr>"
  have "window (write_bytes bs ?rb1) (Suc d + length bs) = window ?rb1 (Suc d) @ bs"
    using Cons.prems by (intro Cons.IH) (simp_all add: mod_Suc_eq)
  moreover have "window ?rb1 (Suc d) = window rb d @ [b]"
    using Cons.prems by (intro window_push) simp_all
  ultimately show ?case by simp
qed

lemma contents_window: "contents rb = window rb (dataAvailable rb)"
  by (simp add: contents_def)

lemma window_fields [simp]:
  "window (rb\<lparr>dataAvailable := d\<rparr>) n = window rb n"
  by (simp add: window_def)

lemma window_pop:
  "readPos rb < size_rb rb \<Longrightarrow>
   window rb (Suc d) =
     buffer rb ! readPos rb # window (rb\<lparr>readPos := (readPos rb + 1) mod size_rb rb\<rparr>) d"
proof -
  assume r: "readPos rb < size_rb rb"
  have "[0..<Suc d] = 0 # map Suc [0..<d]"
    by (simp add: upt_conv_Cons map_Suc_upt del: upt_Suc)
  then show ?thesis
    using r by (simp add: window_def comp_def mod_Suc_shift ac_simps del: upt_Suc)
qed

lemma read_bytes_window:
  "readPos rb < size_rb rb \<Longrightarrow> n \<le> d \<Longrightarrow>
   fst (read_bytes n rb) = take n (window rb d) \<and>
   window (snd (read_bytes n rb)) (d - n) = drop n (window rb d)"
proof (induction n arbitrary: rb d)
  case 0
  then show ?case by simp
next
  case (Suc n)
  from Suc.prems(2) obtain d' where d: "d = Suc d'" and n: "n \<le> d'"
    by (cases d) auto
  let ?rb1 = "rb\<lparr>readPos := (readPos rb + 1) mod size_rb rb\<rparr>"
  have "readPos ?rb1 < size_rb ?rb1" using Suc.prems(1) by simp
  from Suc.IH [OF this n] window_pop [OF Suc.prems(1), of d']
  show ?case
    by (simp add: d read_bytes_Suc del: read_bytes.simps(2))
qed

lemma rb_inv_size0: "rb_inv rb \<Longrightarrow> size_rb rb = 0 \<Longrightarrow> dataAvailable rb = 0 \<and> readPos rb = 0 \<and> writePos rb = 0"
  by (simp add: rb_inv_def)

lemma rb_inv_pos: "rb_inv rb \<Longrightarrow> 0 < size_rb rb \<Longrightarrow> readPos rb < size_rb rb \<and> writePos rb < size_rb rb"
  by (auto simp: rb_inv_def)

lemma write_rb_True:
  fixes d :: "u8 list"
  assumes "rb_inv rb"
  defines "n \<equiv> min (length d) (size_rb rb - dataAvailable rb)"
  defines "rb' \<equiv> snd (write_rb d True rb)"
  shows "fst (write_rb d True rb) = n"
    and "rb_inv rb'"
    and "dataAvailable rb' = dataAvailable rb + n"
    and "size_rb rb' = size_rb rb"
    and "readPos rb' = readPos rb"
    and "contents rb' = contents rb @ take n d"
proof -
  have tw: "(if length d < size_rb rb - dataAvailable rb then length d
             else size_rb rb - dataAvailable rb) = n"
    by (simp add: n_def min_def)
  have rb': "rb' = (write_bytes (take n d) rb)\<lparr>dataAvailable := dataAvailable rb + n\<rparr>"
    by (simp add: rb'_def write_rb_def Let_def tw)
  have ln: "length (take n d) = n" by (simp add: n_def)
  show "fst (write_rb d True rb) = n"
    by (simp add: write_rb_def Let_def tw)
  show da: "dataAvailable rb' = dataAvailable rb + n" by (simp add: rb')
  show "size_rb rb' = size_rb rb" by (simp add: rb')
  show "readPos rb' = readPos rb" by (simp add: rb')
  have wp: "writePos rb' = (writePos rb + n) mod size_rb rb"
  proof (cases "size_rb rb = 0")
    case True
    then have "n = 0" by (simp add: n_def)
    with True show ?thesis by (simp add: rb')
  next
    case False
    with assms(1) have "writePos rb < size_rb rb" by (simp add: rb_inv_pos)
    from write_bytes_writePos [OF this, of "take n d"] ln show ?thesis
      by (simp add: rb')
  qed
  show "rb_inv rb'"
    using assms(1) wp by (auto simp: rb_inv_def rb' n_def mod_add_left_eq add.assoc)
  have "window (write_bytes (take n d) rb) (dataAvailable rb + length (take n d))
        = window rb (dataAvailable rb) @ take n d"
    using assms(1) by (intro window_write_bytes) (auto simp: rb_inv_def n_def)
  then show "contents rb' = contents rb @ take n d"
    using ln by (simp add: contents_window rb')
qed

lemma read_rb_True:
  fixes len :: nat
  assumes "rb_inv rb"
  defines "n \<equiv> min len (dataAvailable rb)"
  defines "rb' \<equiv> snd (snd (read_rb len True rb))"
  shows "fst (read_rb len True rb) = n"
    and "fst (snd (read_rb len True rb)) = take n (contents rb)"
    and "rb_inv rb'"
    and "dataAvailable rb' = dataAvailable rb - n"
    and "size_rb rb' = size_rb rb"
    and "readPos rb' = (readPos rb + n) mod size_rb rb"
    and "contents rb' = drop n (contents rb)"
proof -
  have tr: "(if len < dataAvailable rb then len else dataAvailable rb) = n"
    by (simp add: n_def min_def)
  have rb': "rb' = (snd (read_bytes n rb))\<lparr>dataAvailable := dataAvailable rb - n\<rparr>"
    by (simp add: rb'_def read_rb_def Let_def tr case_prod_beta)
  have bs: "fst (snd (read_rb len True rb)) = fst (read_bytes n rb)"
    by (simp add: read_rb_def Let_def tr case_prod_beta)
  show "fst (read_rb len True rb) = n"
    by (simp add: read_rb_def Let_def tr case_prod_beta)
  show "dataAvailable rb' = dataAvailable rb - n" by (simp add: rb')
  show "size_rb rb' = size_rb rb" by (simp add: rb')
  have nd: "n \<le> dataAvailable rb" by (simp add: n_def)
  show rp: "readPos rb' = (readPos rb + n) mod size_rb rb"
  proof (cases "size_rb rb = 0")
    case True
    with assms(1) have "n = 0" by (simp add: n_def rb_inv_def)
    with True show ?thesis by (simp add: rb')
  next
    case False
    with assms(1) have "readPos rb < size_rb rb" by (simp add: rb_inv_pos)
    from read_bytes_readPos [OF this, of n] show ?thesis by (simp add: rb')
  qed
  show "rb_inv rb'"
  proof (cases "size_rb rb = 0")
    case True
    with assms(1) have "n = 0" by (simp add: n_def rb_inv_def)
    with assms(1) show ?thesis by (simp add: rb' rb_inv_def)
  next
    case False
    have "(readPos rb + n + (dataAvailable rb - n)) = readPos rb + dataAvailable rb"
      using nd by simp
    then have "((readPos rb + n) mod size_rb rb + (dataAvailable rb - n)) mod size_rb rb
          = (readPos rb + dataAvailable rb) mod size_rb rb"
      by (metis mod_add_left_eq)
    moreover have "(readPos rb + n) mod size_rb rb \<le> size_rb rb - Suc 0"
      using mod_less_divisor [of "size_rb rb" "readPos rb + n"] False by linarith
    ultimately show ?thesis
      using assms(1) False rp by (auto simp: rb_inv_def rb')
  qed
  show "fst (snd (read_rb len True rb)) = take n (contents rb)"
    and "contents rb' = drop n (contents rb)"
  proof -
    show "fst (snd (read_rb len True rb)) = take n (contents rb)"
    proof (cases "size_rb rb = 0")
      case True
      with assms(1) have "n = 0" by (simp add: n_def rb_inv_def)
      then show ?thesis by (simp add: bs)
    next
      case False
      with assms(1) have "readPos rb < size_rb rb" by (simp add: rb_inv_pos)
      from read_bytes_window [OF this nd] show ?thesis by (simp add: bs contents_window)
    qed
    show "contents rb' = drop n (contents rb)"
    proof (cases "size_rb rb = 0")
      case True
      with assms(1) have "n = 0" "dataAvailable rb = 0" by (simp_all add: n_def rb_inv_def)
      then show ?thesis by (simp add: rb' contents_window window_def)
    next
      case False
      with assms(1) have "readPos rb < size_rb rb" by (simp add: rb_inv_pos)
      from read_bytes_window [OF this nd] show ?thesis by (simp add: rb' contents_window)
    qed
  qed
qed

lemma write_rb_False [simp]: "write_rb d False rb = (0, rb)"
  by (simp add: write_rb_def)

lemma read_rb_False [simp]: "read_rb n False rb = (0, [], rb)"
  by (simp add: read_rb_def)

lemma exec_op_inv: "exec_inv s \<Longrightarrow> exec_inv (exec_op x s) \<and> size_rb (fst (exec_op x s)) = size_rb (fst s)"
proof (cases s)
  case (Pair rb t)
  assume inv: "exec_inv s"
  with Pair have rbi: "rb_inv rb" by (simp add: exec_inv_def)
  show ?thesis
  proof (cases x)
    case (Write d lk)
    show ?thesis
    proof (cases lk)
      case True
      from write_rb_True [OF rbi, of d] inv Pair Write True show ?thesis
        by (simp add: exec_inv_def case_prod_beta)
    next
      case False
      with inv Pair Write show ?thesis by (simp add: exec_inv_def)
    qed
  next
    case (Read n lk)
    show ?thesis
    proof (cases lk)
      case True
      from read_rb_True [OF rbi, of n] inv Pair Read True show ?thesis
        by (simp add: exec_inv_def case_prod_beta mod_add_left_eq)
    next
      case False
      with inv Pair Read show ?thesis by (simp add: exec_inv_def)
    qed
  next
    case Reset
    with inv Pair show ?thesis by (simp add: exec_inv_def rb_inv_def reset_def)
  qed
qed

lemma exec_ops_inv: "exec_inv s \<Longrightarrow> exec_inv (exec_ops xs s) \<and> size_rb (fst (exec_ops xs s)) = size_rb (fst s)"
  by (induction xs arbitrary: s) (simp_all add: exec_op_inv)

lemma created_inv: "length mem = C \<Longrightarrow> exec_inv (created C mem, tally0)"
  by (simp add: exec_inv_def created_def init_def fresh_def rb_inv_def tally0_def)

subsection \<open>Counts returned by write and read\<close>

text \<open>
  Claim C5. On a well-formed buffer, \<^verbatim>\<open>write(data, len)\<close> with the mutex obtained
  returns \<open>min len (C - available)\<close> and appends exactly that many leading bytes of
  \<open>data\<close> to the buffered bytes; \<^verbatim>\<open>read(buf, max_len)\<close> with the mutex obtained
  returns \<open>min max_len available\<close> and delivers exactly that many of the oldest
  buffered bytes, which is 0 bytes on an empty buffer. When the bounded wait for the
  mutex times out, either operation returns 0 and leaves the buffer as it was. Both
  copy loops are structurally recursive, so every call returns.
\<close>

theorem write_read_counts:
  assumes "rb_inv rb"
  shows "fst (write_rb d True rb) = min (length d) (size_rb rb - dataAvailable rb) \<and>
         contents (snd (write_rb d True rb)) =
           contents rb @ take (min (length d) (size_rb rb - dataAvailable rb)) d \<and>
         write_rb d False rb = (0, rb) \<and>
         fst (read_rb n True rb) = min n (dataAvailable rb) \<and>
         fst (snd (read_rb n True rb)) = take (min n (dataAvailable rb)) (contents rb) \<and>
         contents (snd (snd (read_rb n True rb))) =
           drop (min n (dataAvailable rb)) (contents rb) \<and>
         read_rb n False rb = (0, [], rb)"
  using write_rb_True [OF assms, of d] read_rb_True [OF assms, of n] by simp

theorem write_read_counts_witness:
  "rb_inv \<lparr>buffer = [1, 2, 3, 0], size_rb = 4, writePos = 3, readPos = 0, dataAvailable = 3\<rparr> \<and>
   fst (write_rb [7, 8, 9] True
     \<lparr>buffer = [1, 2, 3, 0], size_rb = 4, writePos = 3, readPos = 0, dataAvailable = 3\<rparr>) = 1 \<and>
   fst (read_rb 2 True
     \<lparr>buffer = [1, 2, 3, 0], size_rb = 4, writePos = 3, readPos = 0, dataAvailable = 3\<rparr>) = 2"
proof -
  have h: "rb_inv \<lparr>buffer = [1, 2, 3, 0], size_rb = 4, writePos = 3, readPos = 0,
                    dataAvailable = 3\<rparr>"
    by (simp add: rb_inv_def)
  from write_read_counts [OF h, of "[7, 8, 9]" 2] h show ?thesis by simp
qed

subsection \<open>The count of buffered bytes over a run\<close>

text \<open>
  Claim C3, as amended. Starting from a newly created buffer of capacity \<open>C\<close>, after
  every sequence of write, read and reset operations (each write and read with or
  without the mutex) the count of buffered bytes is at most \<open>C\<close>, so is the value
  returned by \<^verbatim>\<open>available()\<close>; when \<^verbatim>\<open>available()\<close> obtains the mutex it returns
  the bytes written minus the bytes read since the most recent reset, and the write and
  read cursors are those two counts modulo \<open>C\<close>.
\<close>

theorem exec_ops_available:
  assumes "length mem = C" and "exec_ops ops (created C mem, tally0) = (rb, t)"
  shows "available lk rb \<le> C \<and> dataAvailable rb \<le> C \<and>
         available True rb = sinceWritten t - sinceRead t \<and>
         sinceRead t \<le> sinceWritten t \<and>
         writePos rb = sinceWritten t mod C \<and> readPos rb = sinceRead t mod C"
proof -
  from exec_ops_inv [OF created_inv [OF assms(1)], of ops] assms(2)
  have inv: "exec_inv (rb, t)" and sz: "size_rb rb = C"
    by (simp_all add: created_def init_def fresh_def)
  then have "dataAvailable rb \<le> C" and "sinceRead t + dataAvailable rb = sinceWritten t"
    and "readPos rb = sinceRead t mod C"
    and "writePos rb = (readPos rb + dataAvailable rb) mod C"
    by (simp_all add: exec_inv_def rb_inv_def)
  then show ?thesis
    by (auto simp: available_def mod_add_left_eq)
qed

theorem exec_ops_available_witness:
  "length [0, 0, 0, 0 :: u8] = 4 \<and>
   exec_ops [Write [1, 2, 3] True, Read 2 True, Write [4, 5, 6, 7] True]
     (created 4 [0, 0, 0, 0], tally0) =
     (\<lparr>buffer = [5, 6, 3, 4], size_rb = 4, writePos = 2, readPos = 2, dataAvailable = 4\<rparr>,
      \<lparr>totalWritten = 6, totalRead = 2, sinceWritten = 6, sinceRead = 2\<rparr>) \<and>
   available True
     \<lparr>buffer = [5, 6, 3, 4], size_rb = 4, writePos = 2, readPos = 2, dataAvailable = 4\<rparr>
     = 6 - 2"
proof -
  have l: "length [0, 0, 0, 0 :: u8] = 4" by simp
  have e: "exec_ops [Write [1, 2, 3] True, Read 2 True, Write [4, 5, 6, 7] True]
     (created 4 [0, 0, 0, 0], tally0) =
     (\<lparr>buffer = [5, 6, 3, 4], size_rb = 4, writePos = 2, readPos = 2, dataAvailable = 4\<rparr>,
      \<lparr>totalWritten = 6, totalRead = 2, sinceWritten = 6, sinceRead = 2\<rparr>)"
    by (simp add: created_def init_def fresh_def tally0_def write_rb_def read_rb_def Let_def
        numeral_2_eq_2)
  from exec_ops_available [OF l e, of True] l e show ?thesis by simp
qed

text \<open>
  Counted over the whole run, the difference of the two totals is not the buffered
  count once a reset has discarded bytes: three bytes written, then a reset.
\<close>

theorem available_total_counterexample:
  "available True (fst (exec_ops [Write [1, 2, 3] True, Reset] (created 4 [0, 0, 0, 0], tally0)))
   \<noteq> totalWritten (snd (exec_ops [Write [1, 2, 3] True, Reset] (created 4 [0, 0, 0, 0], tally0)))
     - totalRead (snd (exec_ops [Write [1, 2, 3] True, Reset] (created 4 [0, 0, 0, 0], tally0)))"
  by (simp add: created_def init_def fresh_def tally0_def write_rb_def reset_def Let_def
      available_def)

subsection \<open>Writing, then reading the same length\<close>

text \<open>
  Claim C4, as amended. On a well-formed buffer with room for \<open>b\<close>, and with the
  mutex obtained by both calls, \<^verbatim>\<open>write(b)\<close> accepts all of \<open>b\<close> and the
  \<^verbatim>\<open>read(len(b))\<close> that follows delivers the first \<open>len(b)\<close> bytes of the bytes that
  were already waiting followed by \<open>b\<close>: the buffer is first-in first-out. The bytes
  delivered are \<open>b\<close> itself when the buffer was empty before the write.
\<close>

theorem write_read_round_trip:
  assumes "rb_inv rb" and "length b \<le> size_rb rb - dataAvailable rb"
  shows "fst (write_rb b True rb) = length b \<and>
         fst (read_rb (length b) True (snd (write_rb b True rb))) = length b \<and>
         fst (snd (read_rb (length b) True (snd (write_rb b True rb)))) =
           take (length b) (contents rb @ b) \<and>
         (dataAvailable rb = 0 \<longrightarrow>
            fst (snd (read_rb (length b) True (snd (write_rb b True rb)))) = b)"
proof -
  have n: "min (length b) (size_rb rb - dataAvailable rb) = length b"
    using assms(2) by simp
  note w = write_rb_True [OF assms(1), of b, unfolded n]
  note r = read_rb_True [OF w(2), of "length b"]
  have e: "dataAvailable rb = 0 \<Longrightarrow> contents rb = []"
    by (simp add: contents_def window_def)
  from w r e show ?thesis by (auto simp: min_def)
qed

theorem write_read_round_trip_witness:
  "rb_inv \<lparr>buffer = [9, 9, 9, 9], size_rb = 4, writePos = 3, readPos = 3, dataAvailable = 0\<rparr> \<and>
   length [1, 2, 3 :: u8] \<le> 4 - 0 \<and>
   fst (snd (read_rb (length [1, 2, 3 :: u8]) True (snd (write_rb [1, 2, 3] True
     \<lparr>buffer = [9, 9, 9, 9], size_rb = 4, writePos = 3, readPos = 3, dataAvailable = 0\<rparr>))))
   = [1, 2, 3]"
proof -
  have h: "rb_inv \<lparr>buffer = [9, 9, 9, 9], size_rb = 4, writePos = 3, readPos = 3,
                    dataAvailable = 0\<rparr>"
    by (simp add: rb_inv_def)
  from write_read_round_trip [OF h, of "[1, 2, 3]"] h show ?thesis
    by (simp add: contents_def window_def)
qed

text \<open>
  With one byte already waiting, the read after the write delivers that older byte,
  not the byte just written.
\<close>

theorem write_read_round_trip_counterexample:
  "rb_inv \<lparr>buffer = [1, 0, 0, 0], size_rb = 4, writePos = 1, readPos = 0, dataAvailable = 1\<rparr> \<and>
   length [2 :: u8] \<le> 4 - 1 \<and>
   fst (snd (read_rb (length [2 :: u8]) True (snd (write_rb [2] True
     \<lparr>buffer = [1, 0, 0, 0], size_rb = 4, writePos = 1, readPos = 0, dataAvailable = 1\<rparr>))))
   \<noteq> [2]"
  by (simp add: rb_inv_def write_rb_def read_rb_def Let_def)

section \<open>Properties of the spectrum copy\<close>

text \<open>
  Claim C10. \<^verbatim>\<open>getRadioSpectrum(out, len)\<close>, called with an array \<open>out\<close> of at least
  \<open>len\<close> bytes, copies exactly the first \<open>min len 32\<close> bytes of the 32-band spectrum
  array into \<open>out\<close> and leaves every byte of \<open>out\<close> from index \<open>min len 32\<close> on as
  it was: nothing at an index at or above \<open>len\<close>, and nothing at an index at or above
  32, is written.
\<close>

theorem getRadioSpectrum_frame:
  assumes "length (spectrum st) = SPECTRUM_BANDS" and "len \<le> length out"
  shows "\<exists>out'. getRadioSpectrum out len st = Some out' \<and>
           length out' = length out \<and>
           take (min len SPECTRUM_BANDS) out' = take (min len SPECTRUM_BANDS) (spectrum st) \<and>
           drop (min len SPECTRUM_BANDS) out' = drop (min len SPECTRUM_BANDS) out"
  using assms by (auto simp: getRadioSpectrum_def memcpy_def Let_def min_def)

theorem getRadioSpectrum_frame_witness:
  "length (spectrum (radio0 metadata0\<lparr>spectrum := map of_nat [1..<33]\<rparr>)) = SPECTRUM_BANDS \<and>
   (3::nat) \<le> length [200, 201, 202, 203, 204 :: u8] \<and>
   getRadioSpectrum [200, 201, 202, 203, 204] 3 (radio0 metadata0\<lparr>spectrum := map of_nat [1..<33]\<rparr>)
     = Some [1, 2, 3, 203, 204]"
proof -
  have h: "length (spectrum (radio0 metadata0\<lparr>spectrum := map of_nat [1..<33]\<rparr>)) = SPECTRUM_BANDS"
    by (simp add: SPECTRUM_BANDS_def)
  have l: "(3::nat) \<le> length [200, 201, 202, 203, 204 :: u8]" by simp
  have t: "take 3 (map of_nat [1..<33]) = [1, 2, 3 :: u8]"
    by (simp add: upt_conv_Cons take_Suc_conv_app_nth numeral_3_eq_3)
  from getRadioSpectrum_frame [OF h l] obtain out' where
    "getRadioSpectrum [200, 201, 202, 203, 204] 3 (radio0 metadata0\<lparr>spectrum := map of_nat [1..<33]\<rparr>)
       = Some out'"
    and "take 3 out' = take 3 (map of_nat [1..<33])" and "drop 3 out' = [203, 204]"
    by (auto simp: SPECTRUM_BANDS_def)
  moreover from this have "out' = [1, 2, 3, 203, 204]"
    using t by (metis append_take_drop_id append_Cons append_Nil)
  ultimately show ?thesis using h l by simp
qed

section \<open>Properties of the frame synchroniser\<close>

lemma sync_scan_found:
  "i0 < bound \<Longrightarrow> bound + 2 \<le> length hb \<Longrightarrow> k \<le> i0 \<Longrightarrow>
   (\<forall>j. k \<le> j \<and> j < i0 \<longrightarrow> \<not> valid_header (hb ! j) (hb ! (j + 1)) (hb ! (j + 2))) \<Longrightarrow>
   valid_header (hb ! i0) (hb ! (i0 + 1)) (hb ! (i0 + 2)) \<Longrightarrow>
   sync_scan hb bound k = Found i0"
proof (induction hb bound k rule: sync_scan.induct)
  case (1 hb bound i)
  show ?case
  proof (cases "i = i0")
    case True
    with "1.prems" show ?thesis by (subst sync_scan.simps) simp
  next
    case False
    with "1.prems" have lt: "i < i0" by simp
    with "1.prems" have nv: "\<not> valid_header (hb ! i) (hb ! (i + 1)) (hb ! (i + 2))"
      by simp
    have "sync_scan hb bound (i + 1) = Found i0"
      using "1.prems" lt nv by (intro "1.IH") auto
    with "1.prems" lt nv show ?thesis by (subst sync_scan.simps) simp
  qed
qed

lemma sync_scan_notfound:
  "bound + 2 \<le> length hb \<Longrightarrow>
   (\<forall>j. k \<le> j \<and> j < bound \<longrightarrow> \<not> valid_header (hb ! j) (hb ! (j + 1)) (hb ! (j + 2))) \<Longrightarrow>
   sync_scan hb bound k = NotFound"
proof (induction hb bound k rule: sync_scan.induct)
  case (1 hb bound i)
  show ?case
  proof (cases "i < bound")
    case True
    with "1.prems" have nv: "\<not> valid_header (hb ! i) (hb ! (i + 1)) (hb ! (i + 2))"
      by simp
    have "sync_scan hb bound (i + 1) = NotFound"
      using "1.prems" True nv by (intro "1.IH") auto
    with "1.prems" True nv show ?thesis by (subst sync_scan.simps) simp
  next
    case False
    then show ?thesis by (subst sync_scan.simps) simp
  qed
qed

lemma wrap_sub3:
  assumes "3 \<le> (n::nat)" and "n - 3 < K"
  shows "(n + K - 3) mod K = n - 3"
proof -
  have "n + K - 3 = (n - 3) + K" using assms(1) by simp
  then have "(n + K - 3) mod K = ((n - 3) + K) mod K" by (rule arg_cong)
  also have "\<dots> = (n - 3) mod K" by (rule mod_add_self2)
  also have "\<dots> = n - 3" using assms(2) by (rule mod_less)
  finally show ?thesis .
qed

lemma scan_bound_ge3:
  assumes "3 \<le> n" and "n \<le> HEADER_BUFFER_SIZE"
  shows "scan_bound n = n - 3"
proof -
  have "n - 3 < (2 ^ 32 :: nat)"
  proof -
    have "n - 3 \<le> (4096::nat)" using assms(2) by (simp add: HEADER_BUFFER_SIZE_def)
    also have "(4096::nat) < 2 ^ 32" by simp
    finally show ?thesis .
  qed
  from wrap_sub3 [OF assms(1) this] show ?thesis by (simp only: scan_bound_def)
qed

lemma valid_at_take:
  "i + 3 \<le> n \<Longrightarrow> valid_at (take n hb) i = valid_header (hb ! i) (hb ! (i + 1)) (hb ! (i + 2))"
  by (simp add: valid_at_def)

lemma replay_shift:
  "i \<le> n \<Longrightarrow> n \<le> length hb \<Longrightarrow>
   replay_content (take (n - i) (drop i hb) @ drop (n - i) hb, n - i) = drop i (take n hb)"
  by (simp add: replay_content_def drop_take)

lemma shift_to_sync_Found:
  assumes "i \<le> n" and "n \<le> length hb"
  shows "\<exists>r. shift_to_sync hb n (Found i) = Some r \<and> replay_content r = drop i (take n hb)"
proof (cases "i = 0")
  case True
  then show ?thesis by (simp add: shift_to_sync_def replay_content_def)
next
  case False
  with replay_shift [OF assms] assms(1) show ?thesis
    by (simp add: shift_to_sync_def Let_def)
qed

lemma valid_header_sample: "valid_header 0xFF 0xFB 0x90"
  by (simp add: valid_header_def)

lemma valid_header_zero: "\<not> valid_header 0 b1 b2"
  by (simp add: valid_header_def)

lemma junk_not_valid: "j < n \<Longrightarrow> \<not> valid_at (replicate n 0 @ xs) j"
  by (simp add: valid_at_def nth_append valid_header_zero)

lemma zeros_not_valid: "j < n \<Longrightarrow> \<not> valid_at (replicate n 0) j"
  by (simp add: valid_at_def valid_header_zero)

text \<open>
  Claim C6, as amended. With at least 3 bytes captured in the probe window (at most the
  4096 bytes of the header buffer), the scan finds the first offset \<open>i\<close> at which a
  whole four-byte header lies inside the window (\<open>i + 3 < bytesRead\<close>) and the bytes at
  \<open>i\<close>, \<open>i + 1\<close>, \<open>i + 2\<close> pass the test (sync word, version not \<open>01\<close>, layer not
  \<open>00\<close>, bitrate index neither \<open>0000\<close> nor \<open>1111\<close>, sample-rate index not \<open>11\<close>);
  the replay content is then the window from that offset on. When no such offset
  exists, the replay content is the whole window. The last three offsets of the
  window are not examined.
\<close>

theorem find_sync_first_header:
  assumes "length hb = HEADER_BUFFER_SIZE" and "3 \<le> bytesRead"
    and "bytesRead \<le> HEADER_BUFFER_SIZE"
  shows "(i + 3 < bytesRead \<and> valid_at (take bytesRead hb) i \<and>
            (\<forall>j<i. \<not> valid_at (take bytesRead hb) j) \<longrightarrow>
          sync_scan hb (scan_bound bytesRead) 0 = Found i \<and>
          (\<exists>r. find_sync hb bytesRead = Some r \<and>
               replay_content r = drop i (take bytesRead hb))) \<and>
         ((\<forall>j. j + 3 < bytesRead \<longrightarrow> \<not> valid_at (take bytesRead hb) j) \<longrightarrow>
          sync_scan hb (scan_bound bytesRead) 0 = NotFound \<and>
          (\<exists>r. find_sync hb bytesRead = Some r \<and>
               replay_content r = take bytesRead hb))"
proof (intro conjI impI)
  note b = scan_bound_ge3 [OF assms(2,3)]
  have len: "bytesRead - 3 + 2 \<le> length hb" using assms by simp
  {
    assume h: "i + 3 < bytesRead \<and> valid_at (take bytesRead hb) i \<and>
            (\<forall>j<i. \<not> valid_at (take bytesRead hb) j)"
    then have "i + 3 \<le> bytesRead" "valid_at (take bytesRead hb) i" by auto
    then have v: "valid_header (hb ! i) (hb ! (i + 1)) (hb ! (i + 2))"
      by (simp add: valid_at_take)
    have nv: "\<forall>j. 0 \<le> j \<and> j < i \<longrightarrow> \<not> valid_header (hb ! j) (hb ! (j + 1)) (hb ! (j + 2))"
    proof (intro allI impI)
      fix j assume "0 \<le> j \<and> j < i"
      with h have "j + 3 \<le> bytesRead" "\<not> valid_at (take bytesRead hb) j" by auto
      then show "\<not> valid_header (hb ! j) (hb ! (j + 1)) (hb ! (j + 2))"
        by (simp add: valid_at_take)
    qed
    from h have "i < bytesRead - 3" by linarith
    from sync_scan_found [OF this len _ nv v]
    show f: "sync_scan hb (scan_bound bytesRead) 0 = Found i" by (simp add: b)
    from h have "i \<le> bytesRead" by linarith
    moreover have "bytesRead \<le> length hb" using assms by simp
    ultimately show "\<exists>r. find_sync hb bytesRead = Some r \<and>
        replay_content r = drop i (take bytesRead hb)"
      unfolding find_sync_def f by (rule shift_to_sync_Found)
  }
  {
    assume h: "\<forall>j. j + 3 < bytesRead \<longrightarrow> \<not> valid_at (take bytesRead hb) j"
    have nv: "\<forall>j. 0 \<le> j \<and> j < bytesRead - 3 \<longrightarrow>
                \<not> valid_header (hb ! j) (hb ! (j + 1)) (hb ! (j + 2))"
    proof (intro allI impI)
      fix j assume "0 \<le> j \<and> j < bytesRead - 3"
      with h have "j + 3 \<le> bytesRead" "\<not> valid_at (take bytesRead hb) j" by auto
      then show "\<not> valid_header (hb ! j) (hb ! (j + 1)) (hb ! (j + 2))"
        by (simp add: valid_at_take)
    qed
    from sync_scan_notfound [OF len nv]
    show f: "sync_scan hb (scan_bound bytesRead) 0 = NotFound" by (simp add: b)
    show "\<exists>r. find_sync hb bytesRead = Some r \<and> replay_content r = take bytesRead hb"
      by (simp add: find_sync_def f shift_to_sync_def replay_content_def)
  }
qed

theorem find_sync_first_header_witness:
  "sync_scan (replicate 37 0 @ [0xFF, 0xFB, 0x90, 0x00] @ replicate 4055 0)
     (scan_bound 4096) 0 = Found 37 \<and>
   (\<exists>r. find_sync (replicate 37 0 @ [0xFF, 0xFB, 0x90, 0x00] @ replicate 4055 0) 4096 = Some r \<and>
        replay_content r = [0xFF, 0xFB, 0x90, 0x00] @ replicate 4055 0) \<and>
   (\<exists>r. find_sync (replicate 4096 0) 4096 = Some r \<and> replay_content r = replicate 4096 0)"
proof -
  let ?hb = "replicate 37 0 @ [0xFF, 0xFB, 0x90, 0x00 :: u8] @ replicate 4055 0"
  have l: "length ?hb = HEADER_BUFFER_SIZE" by (simp add: HEADER_BUFFER_SIZE_def)
  have l0: "length (replicate 4096 (0::u8)) = HEADER_BUFFER_SIZE"
    by (simp add: HEADER_BUFFER_SIZE_def)
  have b: "(3::nat) \<le> 4096" "(4096::nat) \<le> HEADER_BUFFER_SIZE"
    by (simp_all add: HEADER_BUFFER_SIZE_def)
  have v: "valid_at (take 4096 ?hb) 37"
    by (simp add: valid_at_def nth_append valid_header_sample)
  have n: "\<forall>j<37. \<not> valid_at (take 4096 ?hb) j"
    by (simp add: junk_not_valid)
  have d: "drop 37 (take 4096 ?hb) = [0xFF, 0xFB, 0x90, 0x00] @ replicate 4055 0"
    by simp
  have z: "\<forall>j. j + 3 < 4096 \<longrightarrow> \<not> valid_at (take 4096 (replicate 4096 (0::u8))) j"
    by (simp add: zeros_not_valid)
  from find_sync_first_header [OF l b, of 37] v n d
  have "sync_scan ?hb (scan_bound 4096) 0 = Found 37 \<and>
   (\<exists>r. find_sync ?hb 4096 = Some r \<and>
        replay_content r = [0xFF, 0xFB, 0x90, 0x00] @ replicate 4055 0)"
    by simp
  moreover from find_sync_first_header [OF l0 b, of 0] z
  have "\<exists>r. find_sync (replicate 4096 0) 4096 = Some r \<and> replay_content r = replicate 4096 0"
    by simp
  ultimately show ?thesis by simp
qed

text \<open>
  A window whose only header pattern sits in its last three bytes: the pattern is
  inside the window, yet the scan stops before it and the whole window is replayed.
\<close>

theorem find_sync_counterexample:
  "find_sync (replicate 4093 0 @ [0xFF, 0xFB, 0x90]) 4096 =
     Some (replicate 4093 0 @ [0xFF, 0xFB, 0x90], 4096) \<and>
   spec_sync_window (take 4096 (replicate 4093 0 @ [0xFF, 0xFB, 0x90])) = [0xFF, 0xFB, 0x90] \<and>
   replay_content (replicate 4093 0 @ [0xFF, 0xFB, 0x90], 4096) \<noteq>
     spec_sync_window (take 4096 (replicate 4093 0 @ [0xFF, 0xFB, 0x90]))"
proof -
  let ?w = "replicate 4093 0 @ [0xFF, 0xFB, 0x90 :: u8]"
  have v: "valid_at ?w 4093"
    by (simp add: valid_at_def nth_append valid_header_sample)
  have n: "\<forall>j<4093. \<not> valid_at ?w j"
    by (simp add: junk_not_valid)
  have "find (valid_at ?w) [0..<4094] = Some 4093"
    unfolding find_Some_iff
    by (rule exI [of _ 4093]) (use v n in \<open>simp add: nth_upt\<close>)
  then have s: "spec_sync_window (take 4096 ?w) = [0xFF, 0xFB, 0x90]"
    by (simp add: spec_sync_window_def spec_sync_offset_def)
  have "\<forall>j. 0 \<le> j \<and> j < 4093 \<longrightarrow> \<not> valid_header (?w ! j) (?w ! (j + 1)) (?w ! (j + 2))"
    using n by (simp add: valid_at_def)
  then have "sync_scan ?w 4093 0 = NotFound"
    by (intro sync_scan_notfound) simp_all
  moreover have "scan_bound 4096 = 4093"
    using scan_bound_ge3 [of 4096] by (simp add: HEADER_BUFFER_SIZE_def)
  ultimately have f: "find_sync ?w 4096 = Some (?w, 4096)"
    by (simp add: find_sync_def shift_to_sync_def)
  have "replay_content (?w, 4096) = ?w" by (simp add: replay_content_def)
  then have "length (replay_content (?w, 4096)) = 4096" by simp
  then have "replay_content (?w, 4096) \<noteq> [0xFF, 0xFB, 0x90]" by auto
  with f s show ?thesis by simp
qed

section \<open>Properties of stop and of the start of the decode task\<close>

lemma stopRadioStream_eq:
  "stopRadioStream env st =
     st\<lparr>stopRequested := True, audioTask := False, httpTask := False,
        s_audio_ring_buffer := False, s_stream_position := 0,
        state := (if mutex st then RADIO_STOPPED else state st),
        radio_state_member := RADIO_STOPPED,
        radioMetadata := (radioMetadata st)\<lparr>title := [], bufferPercent := 0\<rparr>\<rparr>"
  by (simp add: stopRadioStream_def Let_def)

text \<open>
  Claim C9. After \<^verbatim>\<open>stopRadioStream\<close>, from any state and whatever the two tasks do
  during its waits, \<^verbatim>\<open>getRadioState\<close> returns \<^verbatim>\<open>RADIO_STOPPED\<close> (on each of its three
  paths), and the title and the buffer percentage are cleared; a second stop changes
  nothing. Before the first start the state mutex does not exist and
  \<^verbatim>\<open>getRadioState\<close> returns \<^verbatim>\<open>RADIO_STOPPED\<close>; a stop there changes nothing but the
  internal stop flag.
\<close>

theorem stopRadioStream_idempotent:
  "getRadioState lk (stopRadioStream env st) = RADIO_STOPPED \<and>
   title (radioMetadata (stopRadioStream env st)) = [] \<and>
   bufferPercent (radioMetadata (stopRadioStream env st)) = 0 \<and>
   stopRadioStream env' (stopRadioStream env st) = stopRadioStream env st \<and>
   getRadioState lk (radio0 metadata0) = RADIO_STOPPED \<and>
   stopRadioStream env (radio0 metadata0) = (radio0 metadata0)\<lparr>stopRequested := True\<rparr>"
  by (simp add: stopRadioStream_eq getRadioState_def radio0_def metadata0_def)









section \<open>Properties of the HTTP event handler\<close>

lemma session1_eq:
  "session1 = (radio0 metadata0)
     \<lparr>mutex := True, state := RADIO_BUFFERING, currentUrl := ''http://a'',
      stopRequested := False, httpTask := True, audioTask := True, ringAllocated := True,
      ringBuffer := \<lparr>buffer = replicate RING_BUFFER_SIZE 0, size_rb = RING_BUFFER_SIZE,
                      writePos = 0, readPos = 0, dataAvailable = 0\<rparr>,
      hal := True, streamId := 1, radio_state_member := RADIO_BUFFERING\<rparr>"
  by (simp add: session1_def startRadioStream_def stopRadioStream_eq Let_def start_env_ok_def
      radio0_def metadata0_def init_def fresh_def reset_def)

lemma task1_eq: "fst task1 = 1 \<and> snd task1 = session1\<lparr>s_http_task_stream_id := 1\<rparr>"
  by (simp add: task1_def http_stream_task_begin_def session1_eq radio0_def)

lemma session2_eq:
  "session2 = session1\<lparr>currentUrl := ''http://b'', streamId := 2, s_http_task_stream_id := 1\<rparr>"
  by (simp add: session2_def task1_eq startRadioStream_def stopRadioStream_eq Let_def
      start_env_ok_def session1_eq radio0_def metadata0_def init_def fresh_def reset_def)

lemma task2_eq: "fst task2 = 2 \<and> snd task2 = session2\<lparr>s_http_task_stream_id := 2\<rparr>"
  by (simp add: task2_def http_stream_task_begin_def session2_eq session1_eq radio0_def)

lemma rb_inv_empty: "rb_inv \<lparr>buffer = replicate n 0, size_rb = n, writePos = 0, readPos = 0, dataAvailable = 0\<rparr>"
  by (simp add: rb_inv_def)

lemma contents_empty [simp]: "dataAvailable rb = 0 \<Longrightarrow> contents rb = []"
  by (simp add: contents_def window_def)

text \<open>
  Claim C2, evaluated on the code. The data handler compares the live stream id with
  the static \<^verbatim>\<open>s_http_task_stream_id\<close>, not with the id the task keeps in
  \<^verbatim>\<open>myStreamId\<close>, and the HTTP task of the next session overwrites that static when
  it begins. Two sessions are started in succession, the first task not having ended
  within the waits of the stop. Before the second task has begun, a data event of the
  first connection is refused with \<^verbatim>\<open>ESP_FAIL\<close> and changes nothing; once the second
  task has begun, a data event of the first connection, whose task holds stream id 1
  while the live id is 2, returns \<^verbatim>\<open>ESP_OK\<close> and its three bytes are in the ring
  buffer of the second session.
\<close>

theorem stale_task_writes:
  "fst task1 = 1 \<and> streamId (snd task2) = 2 \<and> \<not> stopRequested (snd task2) \<and>
   http_event_handler all_locks (HTTP_EVENT_ON_DATA [1, 2, 3]) session2 = Some (ESP_FAIL, session2) \<and>
   (\<exists>st'. http_event_handler all_locks (HTTP_EVENT_ON_DATA [1, 2, 3]) (snd task2) =
            Some (ESP_OK, st') \<and>
          contents (ringBuffer st') = [1, 2, 3])"
proof -
  let ?rb = "\<lparr>buffer = replicate RING_BUFFER_SIZE 0, size_rb = RING_BUFFER_SIZE,
                      writePos = 0, readPos = 0, dataAvailable = 0\<rparr>"
  have rb: "ringBuffer (snd task2) = ?rb"
    by (simp add: task2_eq session2_eq session1_eq)
  have f: "icyMetaInt (snd task2) = 0" "\<not> stopRequested (snd task2)"
    "s_http_task_stream_id (snd task2) = streamId (snd task2)" "streamId (snd task2) = 2"
    "hal (snd task2)"
    by (simp_all add: task2_eq session2_eq session1_eq radio0_def)
  note w = write_rb_True [OF rb_inv_empty, of "[1, 2, 3]" RING_BUFFER_SIZE]
  have c: "contents (snd (write_rb [1, 2, 3] True ?rb)) = [1, 2, 3]"
    using w(6) by (simp add: RING_BUFFER_SIZE_def)
  have s: "size_rb (snd (write_rb [1, 2, 3] True ?rb)) = RING_BUFFER_SIZE"
    using w(4) by simp
  have "\<exists>st'. http_event_handler all_locks (HTTP_EVENT_ON_DATA [1, 2, 3]) (snd task2) =
            Some (ESP_OK, st') \<and>
          contents (ringBuffer st') = [1, 2, 3]"
    using f rb c s
    by (simp add: http_event_handler_def all_locks_def update_bufferPercent_def
        bufferPercent_rb_def RING_BUFFER_SIZE_def)
  moreover have "http_event_handler all_locks (HTTP_EVENT_ON_DATA [1, 2, 3]) session2 =
      Some (ESP_FAIL, session2)"
    by (simp add: http_event_handler_def session2_eq session1_eq radio0_def)
  ultimately show ?thesis using f task1_eq by simp
qed

lemma metaint4_eq: "metaint4 = (snd task1)\<lparr>icyMetaInt := 4, bytesUntilMeta := 4\<rparr>"
  by (simp add: metaint4_def http_event_handler_def)

lemma chunk1: "split_chunk1 = [0x10, 0x11, 0x12, 0x13, 0x01, 0x53, 0x74, 0x72]"
  by (simp add: split_chunk1_def bytes_of_def)

lemma chunk2: "split_chunk2 = [0x65, 0x61, 0x6D, 0x54, 0x69, 0x74, 0x6C, 0x65, 0x3D, 0x27, 0x58, 0x27, 0x3B,
   0x20, 0x21, 0x22, 0x23, 0x00]"
  by (simp add: split_chunk2_def bytes_of_def)

text \<open>
  Claim C7, evaluated on the code. With interval 4, a metadata frame of 16 bytes is cut
  by the chunk boundary after its third byte. The handler skips the three bytes of the
  first chunk, logs the warning and leaves the title alone, but it restarts the counter
  at once: of the second chunk it forwards the next four metadata bytes (\<^verbatim>\<open>eamT\<close>)
  to the ring buffer as audio and reads the metadata byte after them as a length
  byte, so that the four audio bytes that follow the frame never reach the buffer. The
  de-interleaving of the whole stream gives the eight audio bytes.
\<close>

theorem split_metadata_leaks:
  "(\<exists>st'. on_data_all [(all_locks, split_chunk1), (all_locks, split_chunk2)] metaint4 =
            Some (ESP_OK, st') \<and>
          forwarded st' = [0x10, 0x11, 0x12, 0x13, 0x65, 0x61, 0x6D, 0x54] \<and>
          contents (ringBuffer st') = [0x10, 0x11, 0x12, 0x13, 0x65, 0x61, 0x6D, 0x54] \<and>
          streamTitle st' = [] \<and>
          logged st' = [MetadataSpansChunks 16, MetadataSpansChunks 1680]) \<and>
   icy_deinterleave 4 4 (split_chunk1 @ split_chunk2) =
     Some ([0x10, 0x11, 0x12, 0x13, 0x20, 0x21, 0x22, 0x23], 4)"
proof -
  have "icy_deinterleave 4 4 (split_chunk1 @ split_chunk2) =
     Some ([0x10, 0x11, 0x12, 0x13, 0x20, 0x21, 0x22, 0x23], 4)"
    by (simp add: chunk1 chunk2 icy_deinterleave.simps)
  moreover have "\<exists>st'. on_data_all [(all_locks, split_chunk1), (all_locks, split_chunk2)]
            metaint4 = Some (ESP_OK, st') \<and>
     forwarded st' = [0x10, 0x11, 0x12, 0x13, 0x65, 0x61, 0x6D, 0x54] \<and>
     contents (ringBuffer st') = [0x10, 0x11, 0x12, 0x13, 0x65, 0x61, 0x6D, 0x54] \<and>
     streamTitle st' = [] \<and> logged st' = [MetadataSpansChunks 16, MetadataSpansChunks 1680]"
    by (simp add: chunk1 chunk2 metaint4_eq task1_eq session1_eq radio0_def metadata0_def
        http_event_handler_def icy_loop.simps all_locks_def write_rb_def Let_def
        update_bufferPercent_def bufferPercent_rb_def available_def RING_BUFFER_SIZE_def
        contents_def window_def)
  ultimately show ?thesis by blast
qed

subsection \<open>The handler against the de-interleaving of the specification\<close>

lemma icy_deinterleave_Nil [simp]: "icy_deinterleave N k [] = Some ([], k)"
  by (subst icy_deinterleave.simps) simp










lemma write_rb_size [simp]: "size_rb (snd (write_rb d lk rb)) = size_rb rb"
  by (simp add: write_rb_def Let_def)








lemma length_icy_audio100 [simp]: "length icy_audio100 = 100"
  by (simp add: icy_audio100_def)












end
